theory Spec2Isabelle
  imports Complex_Main "HOL-Library.AList" "HOL-Library.Char_ord" "HOL-Library.List_Lexorder"
begin

section \<open>Data model\<close>

text \<open>
  The programs work on Python dictionaries. A slot of a dictionary is modelled as a value of
  type \<open>'a option option\<close>: \<open>None\<close> is a key that is absent from the dictionary,
  \<open>Some None\<close> is a key bound to Python's \<open>None\<close>, and \<open>Some (Some v)\<close> is a key bound
  to the value \<open>v\<close>. \<open>d.get(k)\<close> never fails and yields \<open>None\<close> for an absent key;
  \<open>d[k]\<close> raises \<open>KeyError\<close> for an absent key.
\<close>

datatype error = KeyError | IndexError

type_synonym 'a entry = "'a option option"

fun dict_get :: "'a entry \<Rightarrow> 'a option" where
  "dict_get None = None"
| "dict_get (Some v) = v"

fun dict_getitem :: "'a entry \<Rightarrow> error + 'a option" where
  "dict_getitem None = Inl KeyError"
| "dict_getitem (Some v) = Inr v"

text \<open>
  A row as \<open>data_fetcher._parse_chart_json\<close> builds it: a dictionary with the keys
  \<open>Date\<close> (a string \<open>YYYY-MM-DD\<close>), \<open>Open\<close>, \<open>High\<close>, \<open>Low\<close>, \<open>Close\<close> (numbers) and
  \<open>Volume\<close> (an integer), each possibly \<open>None\<close>. Prices are the real numbers that the
  Python floats denote; only their order is ever used. Every row of a series is a
  dictionary object of its own (the fetcher builds one literal per row), so a row is
  modelled as a value.
\<close>

record row =
  Date :: "string entry"
  Open :: "real entry"
  High :: "real entry"
  Low :: "real entry"
  Close :: "real entry"
  Volume :: "int entry"

text \<open>\<open>_NUMERIC_KEYS\<close> of \<open>data_cleaner.py\<close>.\<close>

definition NUMERIC_KEYS :: "string list" where
  "NUMERIC_KEYS = [''Open'', ''High'', ''Low'', ''Close'', ''Volume'']"

text \<open>The test \<open>row.get(key) is None\<close>; a key that no row has is absent.\<close>

definition get_is_None :: "row \<Rightarrow> string \<Rightarrow> bool" where
  "get_is_None row key =
     (if key = ''Date'' then dict_get (Date row) = None
      else if key = ''Open'' then dict_get (Open row) = None
      else if key = ''High'' then dict_get (High row) = None
      else if key = ''Low'' then dict_get (Low row) = None
      else if key = ''Close'' then dict_get (Close row) = None
      else if key = ''Volume'' then dict_get (Volume row) = None
      else True)"

section \<open>data_cleaner.detect_missing_values\<close>

text \<open>
  The loop state is the triple \<open>(count, positions, seen_positions)\<close>. The inner loop runs
  over the keys of one row, the outer loop over the indices \<open>range(len(asset_data))\<close>.
\<close>

type_synonym dmv_state = "nat \<times> nat list \<times> nat set"

fun dmv_keys :: "row \<Rightarrow> nat \<Rightarrow> string list \<Rightarrow> dmv_state \<Rightarrow> dmv_state" where
  "dmv_keys row i [] st = st"
| "dmv_keys row i (key # keys) (count, positions, seen_positions) =
     (if get_is_None row key then
        (if i \<notin> seen_positions
         then dmv_keys row i keys (count + 1, positions @ [i], insert i seen_positions)
         else dmv_keys row i keys (count + 1, positions, seen_positions))
      else dmv_keys row i keys (count, positions, seen_positions))"

definition detect_missing_values :: "row list \<Rightarrow> nat \<times> nat list" where
  "detect_missing_values asset_data =
     (if asset_data = [] then (0, [])
      else
        (case fold (\<lambda>i st. dmv_keys (asset_data ! i) i NUMERIC_KEYS st)
                [0..<length asset_data] (0, [], {})
         of (count, positions, seen_positions) \<Rightarrow> (count, positions)))"

text \<open>
  The number of null cells of a row, in the words of the specification: how many of the
  five fields Open, High, Low, Close, Volume are null.
\<close>

definition null_cells :: "row \<Rightarrow> nat" where
  "null_cells r =
     length (filter (\<lambda>b. b)
       [dict_get (Open r) = None, dict_get (High r) = None, dict_get (Low r) = None,
        dict_get (Close r) = None, dict_get (Volume r) = None])"

lemma dmv_keys_result:
  "dmv_keys row i keys (c, ps, seen) =
     (c + length (filter (get_is_None row) keys),
      if (\<exists>k \<in> set keys. get_is_None row k) \<and> i \<notin> seen then ps @ [i] else ps,
      if (\<exists>k \<in> set keys. get_is_None row k) then insert i seen else seen)"
  by (induction keys arbitrary: c ps seen) (auto simp: insert_absorb)

lemma count_numeric_keys:
  "length (filter (get_is_None row) NUMERIC_KEYS) = null_cells row"
  by (simp add: NUMERIC_KEYS_def get_is_None_def null_cells_def)

lemma exists_numeric_keys:
  "(\<exists>k \<in> set NUMERIC_KEYS. get_is_None row k) \<longleftrightarrow> 0 < null_cells row"
  unfolding count_numeric_keys [symmetric] by (simp add: filter_empty_conv)

lemma dmv_fold_invariant:
  "k \<le> length xs \<Longrightarrow>
   fold (\<lambda>i st. dmv_keys (xs ! i) i NUMERIC_KEYS st) [0..<k] (0, [], {}) =
     (sum_list (map null_cells (take k xs)),
      filter (\<lambda>i. 0 < null_cells (xs ! i)) [0..<k],
      set (filter (\<lambda>i. 0 < null_cells (xs ! i)) [0..<k]))"
proof (induction k)
  case 0
  show ?case by simp
next
  case (Suc k)
  then have k: "k < length xs" by simp
  have fresh: "k \<notin> set (filter (\<lambda>i. 0 < null_cells (xs ! i)) [0..<k])"
    by simp
  show ?case
    using Suc.IH k fresh
    by (simp add: dmv_keys_result count_numeric_keys exists_numeric_keys
        take_Suc_conv_app_nth del: set_filter)
qed

lemma detect_missing_values_eq:
  "detect_missing_values xs =
     (sum_list (map null_cells xs), filter (\<lambda>i. 0 < null_cells (xs ! i)) [0..<length xs])"
  by (simp add: detect_missing_values_def dmv_fold_invariant)

text \<open>
  Claim C8. On the empty series the result is \<open>(0, [])\<close>. In general the count is the total
  number of null cells among Open, High, Low, Close, Volume over all records, and the
  positions are the indices of the records with at least one null among those fields,
  each once, in increasing order; so there are at most as many positions as records.
\<close>

theorem detect_missing_values_spec:
  "detect_missing_values [] = (0, []) \<and>
   fst (detect_missing_values xs) = sum_list (map null_cells xs) \<and>
   snd (detect_missing_values xs) = filter (\<lambda>i. 0 < null_cells (xs ! i)) [0..<length xs] \<and>
   distinct (snd (detect_missing_values xs)) \<and>
   sorted_wrt (<) (snd (detect_missing_values xs)) \<and>
   length (snd (detect_missing_values xs)) \<le> length xs"
proof -
  have "length (filter (\<lambda>i. 0 < null_cells (xs ! i)) [0..<length xs]) \<le> length [0..<length xs]"
    by (rule length_filter_le)
  moreover have "sorted_wrt (<) (filter (\<lambda>i. 0 < null_cells (xs ! i)) [0..<length xs])"
    by (rule sorted_wrt_filter) simp
  ultimately show ?thesis
    by (simp add: detect_missing_values_eq)
qed

section \<open>data_cleaner.detect_inconsistencies\<close>

text \<open>
  An anomaly is the dictionary \<open>{"index": i, "type": str, "row": dict(row)}\<close>; the copy
  \<open>dict(row)\<close> has the value of the row at the time it is taken.
\<close>

record anomaly =
  anomaly_index :: nat
  anomaly_type :: string
  anomaly_row :: row

text \<open>
  The body of the loop at index \<open>i\<close>: \<open>continue\<close> leaves the list as it is when
  \<open>Low\<close> or \<open>High\<close> is \<open>None\<close>; otherwise the three checks run one after the other,
  each appending to what the one before left.
\<close>

definition di_row :: "nat \<Rightarrow> row \<Rightarrow> anomaly list \<Rightarrow> anomaly list" where
  "di_row i row anomalies =
     (let low = dict_get (Low row); high = dict_get (High row);
          open' = dict_get (Open row); close = dict_get (Close row)
      in case (low, high) of
           (Some l, Some h) \<Rightarrow>
             (let anomalies1 =
                    (if h < l
                     then anomalies @ [\<lparr>anomaly_index = i, anomaly_type = ''High_less_than_Low'',
                                        anomaly_row = row\<rparr>]
                     else anomalies);
                  anomalies2 =
                    (case close of
                       None \<Rightarrow> anomalies1
                     | Some c \<Rightarrow>
                         if c < l \<or> c > h
                         then anomalies1 @ [\<lparr>anomaly_index = i,
                                             anomaly_type = ''Close_outside_Low_High_range'',
                                             anomaly_row = row\<rparr>]
                         else anomalies1);
                  anomalies3 =
                    (case open' of
                       None \<Rightarrow> anomalies2
                     | Some opn \<Rightarrow>
                         if opn < l \<or> opn > h
                         then anomalies2 @ [\<lparr>anomaly_index = i,
                                             anomaly_type = ''Open_outside_Low_High_range'',
                                             anomaly_row = row\<rparr>]
                         else anomalies2)
              in anomalies3)
         | _ \<Rightarrow> anomalies)"

definition detect_inconsistencies :: "row list \<Rightarrow> anomaly list" where
  "detect_inconsistencies asset_data =
     fold (\<lambda>i anomalies. di_row i (asset_data ! i) anomalies) [0..<length asset_data] []"

lemma di_row_append: "di_row i r acc = acc @ di_row i r []"
  by (simp add: di_row_def Let_def split: option.splits)

lemma di_fold_concat:
  "fold (\<lambda>i anomalies. di_row i (xs ! i) anomalies) [0..<k] [] =
     concat (map (\<lambda>i. di_row i (xs ! i) []) [0..<k])"
proof (induction k)
  case 0
  show ?case by simp
next
  case (Suc k)
  show ?case
    using Suc.IH di_row_append [of k "xs ! k" "concat (map (\<lambda>i. di_row i (xs ! i) []) [0..<k])"]
    by simp
qed

lemma di_row_cases:
  "dict_get (Low r) = Some l \<Longrightarrow> dict_get (High r) = Some h \<Longrightarrow>
   di_row i r [] =
     (if h < l
      then [\<lparr>anomaly_index = i, anomaly_type = ''High_less_than_Low'', anomaly_row = r\<rparr>]
      else []) @
     (if \<exists>c. dict_get (Close r) = Some c \<and> (c < l \<or> c > h)
      then [\<lparr>anomaly_index = i, anomaly_type = ''Close_outside_Low_High_range'',
              anomaly_row = r\<rparr>]
      else []) @
     (if \<exists>opn. dict_get (Open r) = Some opn \<and> (opn < l \<or> opn > h)
      then [\<lparr>anomaly_index = i, anomaly_type = ''Open_outside_Low_High_range'',
              anomaly_row = r\<rparr>]
      else [])"
  by (auto simp: di_row_def Let_def split: option.splits)

lemma di_row_skip:
  "dict_get (Low r) = None \<or> dict_get (High r) = None \<Longrightarrow> di_row i r acc = acc"
  by (auto simp: di_row_def Let_def split: option.splits)

text \<open>
  Claim C7. The result is the concatenation, over the positions in increasing order, of the
  anomalies of each position. A position whose Low or High is null yields none. A position
  with Low \<open>l\<close> and High \<open>h\<close> yields, in this order: High-below-Low iff \<open>h < l\<close>;
  Close-out-of-range iff Close is a number \<open>c\<close> with \<open>c < l\<close> or \<open>c > h\<close>;
  Open-out-of-range iff Open is a number \<open>p\<close> with \<open>p < l\<close> or \<open>p > h\<close>; so at most
  three per position. The record open=5, high=10, low=6, close=8 yields exactly the
  Open-out-of-range anomaly.
\<close>

theorem detect_inconsistencies_spec:
  "detect_inconsistencies xs = concat (map (\<lambda>i. di_row i (xs ! i) []) [0..<length xs]) \<and>
   (dict_get (Low r) = None \<or> dict_get (High r) = None \<longrightarrow> di_row i r [] = []) \<and>
   (dict_get (Low r) = Some l \<and> dict_get (High r) = Some h \<longrightarrow>
      di_row i r [] =
        (if h < l
         then [\<lparr>anomaly_index = i, anomaly_type = ''High_less_than_Low'', anomaly_row = r\<rparr>]
         else []) @
        (if \<exists>c. dict_get (Close r) = Some c \<and> (c < l \<or> c > h)
         then [\<lparr>anomaly_index = i, anomaly_type = ''Close_outside_Low_High_range'',
                 anomaly_row = r\<rparr>]
         else []) @
        (if \<exists>opn. dict_get (Open r) = Some opn \<and> (opn < l \<or> opn > h)
         then [\<lparr>anomaly_index = i, anomaly_type = ''Open_outside_Low_High_range'',
                 anomaly_row = r\<rparr>]
         else [])) \<and>
   length (di_row i r []) \<le> 3 \<and>
   detect_inconsistencies
     [\<lparr>Date = d, Open = Some (Some 5), High = Some (Some 10), Low = Some (Some 6),
       Close = Some (Some 8), Volume = v\<rparr>] =
     [\<lparr>anomaly_index = 0, anomaly_type = ''Open_outside_Low_High_range'',
       anomaly_row = \<lparr>Date = d, Open = Some (Some 5), High = Some (Some 10),
                       Low = Some (Some 6), Close = Some (Some 8), Volume = v\<rparr>\<rparr>]"
proof -
  have len: "length (di_row i r []) \<le> 3"
    by (simp add: di_row_def Let_def split: option.splits)
  have scen: "detect_inconsistencies
     [\<lparr>Date = d, Open = Some (Some 5), High = Some (Some 10), Low = Some (Some 6),
       Close = Some (Some 8), Volume = v\<rparr>] =
     [\<lparr>anomaly_index = 0, anomaly_type = ''Open_outside_Low_High_range'',
       anomaly_row = \<lparr>Date = d, Open = Some (Some 5), High = Some (Some 10),
                       Low = Some (Some 6), Close = Some (Some 8), Volume = v\<rparr>\<rparr>]"
    by (simp add: detect_inconsistencies_def di_row_def)
  have eq: "detect_inconsistencies xs = concat (map (\<lambda>i. di_row i (xs ! i) []) [0..<length xs])"
    by (simp add: detect_inconsistencies_def di_fold_concat)
  have skip: "dict_get (Low r) = None \<or> dict_get (High r) = None \<longrightarrow> di_row i r [] = []"
    by (rule impI) (rule di_row_skip)
  note cases = di_row_cases [of r l h i]
  show ?thesis
    by (intro conjI impI; (elim conjE)?) (rule eq skip [rule_format] cases len scen; assumption)+
qed

theorem detect_inconsistencies_spec_witness:
  "dict_get (Low \<lparr>Date = Some (Some ''2024-01-02''), Open = Some (Some 12), High = Some (Some 4),
                  Low = Some (Some 6), Close = Some (Some 8), Volume = Some None\<rparr>) = Some 6 \<and>
   dict_get (High \<lparr>Date = Some (Some ''2024-01-02''), Open = Some (Some 12), High = Some (Some 4),
                   Low = Some (Some 6), Close = Some (Some 8), Volume = Some None\<rparr>) = Some 4 \<and>
   map anomaly_type (detect_inconsistencies
     [\<lparr>Date = Some (Some ''2024-01-01''), Open = Some (Some 1), High = None,
       Low = Some (Some 6), Close = Some (Some 8), Volume = Some None\<rparr>,
      \<lparr>Date = Some (Some ''2024-01-02''), Open = Some (Some 12), High = Some (Some 4),
       Low = Some (Some 6), Close = Some (Some 8), Volume = Some None\<rparr>]) =
     [''High_less_than_Low'', ''Close_outside_Low_High_range'', ''Open_outside_Low_High_range'']"
  using detect_inconsistencies_spec
    [of "[\<lparr>Date = Some (Some ''2024-01-01''), Open = Some (Some 1), High = None,
            Low = Some (Some 6), Close = Some (Some 8), Volume = Some None\<rparr>,
          \<lparr>Date = Some (Some ''2024-01-02''), Open = Some (Some 12), High = Some (Some 4),
            Low = Some (Some 6), Close = Some (Some 8), Volume = Some None\<rparr>]"
        "\<lparr>Date = Some (Some ''2024-01-02''), Open = Some (Some 12), High = Some (Some 4),
            Low = Some (Some 6), Close = Some (Some 8), Volume = Some None\<rparr>"
        1 6 4]
  by (simp add: di_row_def)

section \<open>data_cleaner.clean_with_forward_fill\<close>

text \<open>
  The function writes \<open>row["Close"] = last_valid\<close> into the dictionary object of the row and
  returns the list it was given. A list holds references: the same dictionary may sit at
  several positions, and a write through one position is then seen at the others. So the
  rows live in a store, a series is the list of the addresses of its rows, and the function
  returns the list together with the store after the loop. The loop visits the positions
  from left to right and carries \<open>last_valid\<close>. The read \<open>row["Close"]\<close> is a subscript
  and raises \<open>KeyError\<close> on an absent key; the assignment binds the key whether or not it
  was there.
\<close>

type_synonym addr = nat

type_synonym store = "addr \<Rightarrow> row"

fun ffill_loop :: "real option \<Rightarrow> addr list \<Rightarrow> store \<Rightarrow> error + store" where
  "ffill_loop last_valid [] s = Inr s"
| "ffill_loop last_valid (a # rest) s =
     (let row = s a
      in if dict_get (Close row) \<noteq> None then
           (case dict_getitem (Close row) of
              Inl e \<Rightarrow> Inl e
            | Inr c \<Rightarrow> ffill_loop c rest s)
         else if last_valid \<noteq> None then
           ffill_loop last_valid rest (s(a := row\<lparr>Close := Some last_valid\<rparr>))
         else ffill_loop last_valid rest s)"

definition clean_with_forward_fill :: "addr list \<Rightarrow> store \<Rightarrow> error + addr list \<times> store" where
  "clean_with_forward_fill asset_data s =
     (if asset_data = [] then Inr (asset_data, s)
      else
        (case ffill_loop None asset_data s of
           Inl e \<Rightarrow> Inl e
         | Inr s' \<Rightarrow> Inr (asset_data, s')))"

text \<open>The rows of the returned list, read from the store after the call.\<close>

definition rows_after :: "error + addr list \<times> store \<Rightarrow> error + row list" where
  "rows_after res = (case res of Inl e \<Rightarrow> Inl e | Inr (series, s) \<Rightarrow> Inr (map s series))"


text \<open>
  A series whose rows are dictionaries of their own, as \<open>data_fetcher._parse_chart_json\<close>
  builds it (one dictionary literal per row): row \<open>i\<close> is at address \<open>i\<close>; the addresses
  beyond the series hold an empty dictionary that nothing refers to.
\<close>

definition store_of :: "row list \<Rightarrow> store" where
  "store_of rows a =
     (if a < length rows then rows ! a
      else \<lparr>Date = None, Open = None, High = None, Low = None, Close = None, Volume = None\<rparr>)"

text \<open>A row with a Date and a Close and the other fields null, for the examples.\<close>

definition sample_row :: "string \<Rightarrow> real option \<Rightarrow> row" where
  "sample_row d c =
     \<lparr>Date = Some (Some d), Open = Some None, High = Some None, Low = Some None,
      Close = Some c, Volume = Some None\<rparr>"

text \<open>
  Forward fill in the words of the specification, on a sequence of row values: one pass
  from left to right that keeps the last non-null Close and puts it where Close is null.
\<close>

fun forward_fill_values :: "real option \<Rightarrow> row list \<Rightarrow> row list" where
  "forward_fill_values lv [] = []"
| "forward_fill_values lv (r # rs) =
     (if dict_get (Close r) \<noteq> None then r # forward_fill_values (dict_get (Close r)) rs
      else if lv \<noteq> None then r\<lparr>Close := Some lv\<rparr> # forward_fill_values lv rs
      else r # forward_fill_values lv rs)"

text \<open>
  Two devices for the proofs: the value of \<open>last_valid\<close> when a pass over the values
  \<open>xs\<close>, started with \<open>lv\<close>, reaches index \<open>i\<close>, and what the pass makes of one row.
\<close>

definition last_valid_at :: "real option \<Rightarrow> row list \<Rightarrow> nat \<Rightarrow> real option" where
  "last_valid_at lv xs i =
     fold (\<lambda>r v. if dict_get (Close r) \<noteq> None then dict_get (Close r) else v) (take i xs) lv"

definition fill_row :: "real option \<Rightarrow> row \<Rightarrow> row" where
  "fill_row lv r =
     (if dict_get (Close r) \<noteq> None then r
      else if lv \<noteq> None then r\<lparr>Close := Some lv\<rparr> else r)"

lemma dict_getitem_get: "dict_get e \<noteq> None \<Longrightarrow> dict_getitem e = Inr (dict_get e)"
  by (cases e) auto

lemma last_valid_at_0: "last_valid_at lv xs 0 = lv"
  by (simp add: last_valid_at_def)

lemma last_valid_at_Suc_Cons:
  "last_valid_at lv (x # xs) (Suc i) =
     last_valid_at (if dict_get (Close x) \<noteq> None then dict_get (Close x) else lv) xs i"
  by (simp add: last_valid_at_def)

lemma map_upt_Suc_shift: "map f [0..<Suc n] = f 0 # map (\<lambda>i. f (Suc i)) [0..<n]"
  by (simp add: upt_conv_Cons map_Suc_upt [symmetric] del: upt_Suc)

lemma forward_fill_values_eq:
  "forward_fill_values lv xs =
     map (\<lambda>i. fill_row (last_valid_at lv xs i) (xs ! i)) [0..<length xs]"
proof (induction xs arbitrary: lv)
  case Nil
  show ?case by simp
next
  case (Cons x xs)
  show ?case
    unfolding length_Cons map_upt_Suc_shift
    by (simp add: Cons.IH last_valid_at_0 last_valid_at_Suc_Cons fill_row_def)
qed

lemma length_forward_fill_values: "length (forward_fill_values lv xs) = length xs"
  by (simp add: forward_fill_values_eq)










text \<open>
  On a series whose addresses are distinct the loop does to the rows what the pass over
  values does, and it leaves every other row of the store alone.
\<close>

lemma map_upd_notin: "a \<notin> set rest \<Longrightarrow> map (s(a := r)) rest = map s rest"
  by (induction rest) auto

lemma ffill_loop_distinct:
  "distinct rest \<Longrightarrow>
   \<exists>s'. ffill_loop lv rest s = Inr s' \<and>
        map s' rest = forward_fill_values lv (map s rest) \<and>
        (\<forall>a. a \<notin> set rest \<longrightarrow> s' a = s a)"
proof (induction rest arbitrary: lv s)
  case Nil
  show ?case by simp
next
  case (Cons a rest)
  have fresh: "a \<notin> set rest" and d: "distinct rest"
    using Cons.prems by simp_all
  show ?case
  proof (cases "dict_get (Close (s a)) \<noteq> None")
    case True
    from Cons.IH [OF d, of "dict_get (Close (s a))" s] obtain s'
      where s': "ffill_loop (dict_get (Close (s a))) rest s = Inr s'"
        "map s' rest = forward_fill_values (dict_get (Close (s a))) (map s rest)"
        "\<forall>b. b \<notin> set rest \<longrightarrow> s' b = s b"
      by blast
    from s'(3) fresh have sa: "s' a = s a" by simp
    have "ffill_loop lv (a # rest) s = Inr s'"
      using True s'(1) by (simp add: dict_getitem_get Let_def)
    moreover have "map s' (a # rest) = forward_fill_values lv (map s (a # rest))"
      using True s'(2) sa by simp
    moreover have "\<forall>b. b \<notin> set (a # rest) \<longrightarrow> s' b = s b"
      using s'(3) by simp
    ultimately show ?thesis by blast
  next
    case False
    then have null: "dict_get (Close (s a)) = None" by simp
    show ?thesis
    proof (cases "lv \<noteq> None")
      case True
      let ?s1 = "s(a := (s a)\<lparr>Close := Some lv\<rparr>)"
      from Cons.IH [OF d, of lv ?s1] obtain s'
        where s': "ffill_loop lv rest ?s1 = Inr s'"
          "map s' rest = forward_fill_values lv (map ?s1 rest)"
          "\<forall>b. b \<notin> set rest \<longrightarrow> s' b = ?s1 b"
        by blast
      from s'(3) fresh have sa: "s' a = (s a)\<lparr>Close := Some lv\<rparr>" by simp
      have m: "map ?s1 rest = map s rest" using fresh by (rule map_upd_notin)
      have "ffill_loop lv (a # rest) s = Inr s'"
        using null True s'(1) by (simp add: Let_def)
      moreover have "map s' (a # rest) = forward_fill_values lv (map s (a # rest))"
        using null True s'(2) sa unfolding m by simp
      moreover have "\<forall>b. b \<notin> set (a # rest) \<longrightarrow> s' b = s b"
        using s'(3) by simp
      ultimately show ?thesis by blast
    next
      case False
      from Cons.IH [OF d, of lv s] obtain s'
        where s': "ffill_loop lv rest s = Inr s'"
          "map s' rest = forward_fill_values lv (map s rest)"
          "\<forall>b. b \<notin> set rest \<longrightarrow> s' b = s b"
        by blast
      from s'(3) fresh have sa: "s' a = s a" by simp
      have "ffill_loop lv (a # rest) s = Inr s'"
        using null False s'(1) by (simp add: Let_def)
      moreover have "map s' (a # rest) = forward_fill_values lv (map s (a # rest))"
        using null False s'(2) sa by simp
      moreover have "\<forall>b. b \<notin> set (a # rest) \<longrightarrow> s' b = s b"
        using s'(3) by simp
      ultimately show ?thesis by blast
    qed
  qed
qed

lemma clean_distinct:
  assumes "distinct asset_data"
  shows "\<exists>s'. clean_with_forward_fill asset_data s = Inr (asset_data, s') \<and>
        map s' asset_data = forward_fill_values None (map s asset_data) \<and>
        (\<forall>a. a \<notin> set asset_data \<longrightarrow> s' a = s a)"
proof (cases "asset_data = []")
  case True
  then show ?thesis by (simp add: clean_with_forward_fill_def)
next
  case False
  from ffill_loop_distinct [OF assms, of None s] obtain s'
    where s': "ffill_loop None asset_data s = Inr s'"
      "map s' asset_data = forward_fill_values None (map s asset_data)"
      "\<forall>a. a \<notin> set asset_data \<longrightarrow> s' a = s a"
    by blast
  have "clean_with_forward_fill asset_data s = Inr (asset_data, s')"
    using False s'(1) by (simp add: clean_with_forward_fill_def)
  with s'(2,3) show ?thesis by blast
qed

lemma map_store_of: "map (store_of xs) [0..<length xs] = xs"
  by (rule nth_equalityI) (simp_all add: store_of_def)

lemma rows_after_fresh:
  "rows_after (clean_with_forward_fill [0..<length xs] (store_of xs)) =
     Inr (forward_fill_values None xs)"
proof -
  from clean_distinct [of "[0..<length xs]" "store_of xs"] obtain s'
    where "clean_with_forward_fill [0..<length xs] (store_of xs) = Inr ([0..<length xs], s')"
      "map s' [0..<length xs] = forward_fill_values None (map (store_of xs) [0..<length xs])"
    by auto
  then show ?thesis by (simp add: rows_after_def map_store_of)
qed







section \<open>data_cleaner.remove_invalid_rows\<close>

text \<open>
  The loop appends to a fresh list \<open>result\<close>; nothing is assigned to \<open>asset_data\<close> or to
  a row, so the input is the same after the call.
\<close>

definition remove_invalid_rows :: "row list \<Rightarrow> row list" where
  "remove_invalid_rows asset_data =
     fold (\<lambda>i result.
             (let row = asset_data ! i
              in if dict_get (Close row) \<noteq> None then result @ [row] else result))
       [0..<length asset_data] []"

lemma rir_fold:
  "k \<le> length xs \<Longrightarrow>
   fold (\<lambda>i result.
           (let row = xs ! i in if dict_get (Close row) \<noteq> None then result @ [row] else result))
     [0..<k] [] = filter (\<lambda>r. dict_get (Close r) \<noteq> None) (take k xs)"
  by (induction k) (simp_all add: take_Suc_conv_app_nth)

lemma remove_invalid_rows_filter:
  "remove_invalid_rows xs = filter (\<lambda>r. dict_get (Close r) \<noteq> None) xs"
  using rir_fold [of "length xs" xs] by (simp add: remove_invalid_rows_def)

text \<open>
  Claim C5. The result is the sub-sequence, in the original order, of exactly the records
  whose Close is non-null; so every record of the result has a non-null Close. The input
  is only read: the result is built in a list of its own.
\<close>

theorem remove_invalid_rows_spec:
  "remove_invalid_rows xs = filter (\<lambda>r. dict_get (Close r) \<noteq> None) xs \<and>
   (\<forall>r \<in> set (remove_invalid_rows xs). dict_get (Close r) \<noteq> None)"
  by (simp add: remove_invalid_rows_filter)

theorem remove_invalid_rows_spec_witness:
  "remove_invalid_rows
     [\<lparr>Date = Some (Some ''2024-01-01''), Open = Some (Some 1), High = Some (Some 2),
       Low = Some (Some 1), Close = Some None, Volume = Some (Some 5)\<rparr>,
      \<lparr>Date = Some (Some ''2024-01-02''), Open = Some None, High = Some None,
       Low = Some None, Close = Some (Some 10), Volume = Some None\<rparr>,
      \<lparr>Date = Some (Some ''2024-01-03''), Open = Some (Some 3), High = Some (Some 4),
       Low = Some (Some 2), Close = None, Volume = Some (Some 6)\<rparr>] =
     [\<lparr>Date = Some (Some ''2024-01-02''), Open = Some None, High = Some None,
       Low = Some None, Close = Some (Some 10), Volume = Some None\<rparr>] \<and>
   dict_get (Close \<lparr>Date = Some (Some ''2024-01-02''), Open = Some None, High = Some None,
       Low = Some None, Close = Some (Some 10), Volume = Some None\<rparr>) \<noteq> None"
  using remove_invalid_rows_spec
    [of "[\<lparr>Date = Some (Some ''2024-01-01''), Open = Some (Some 1), High = Some (Some 2),
       Low = Some (Some 1), Close = Some None, Volume = Some (Some 5)\<rparr>,
      \<lparr>Date = Some (Some ''2024-01-02''), Open = Some None, High = Some None,
       Low = Some None, Close = Some (Some 10), Volume = Some None\<rparr>,
      \<lparr>Date = Some (Some ''2024-01-03''), Open = Some (Some 3), High = Some (Some 4),
       Low = Some (Some 2), Close = None, Volume = Some (Some 6)\<rparr>]"]
  by simp

section \<open>data_unifier\<close>

text \<open>
  A universe is a Python dictionary from symbol to series. Python dictionaries keep
  insertion order and have one entry per key, so a universe is an association list, and it
  is well formed when its keys are distinct. Iterating over the keys and subscripting with
  each key is iterating over the entries. An assignment \<open>d[k] = v\<close> replaces the value of
  an existing key in place and otherwise adds the entry at the end.
\<close>

type_synonym universe = "(string \<times> row list) list"

definition dict_lookup :: "('k \<times> 'v) list \<Rightarrow> 'k \<Rightarrow> error + 'v" where
  "dict_lookup d k = (case map_of d k of None \<Rightarrow> Inl KeyError | Some v \<Rightarrow> Inr v)"

text \<open>The subscript \<open>xs[i]\<close> of a list with a non-negative index.\<close>

definition list_index :: "'a list \<Rightarrow> nat \<Rightarrow> error + 'a" where
  "list_index xs i = (if i < length xs then Inr (xs ! i) else Inl IndexError)"

subsection \<open>build_master_calendar\<close>

text \<open>
  The dates are collected in a set and \<open>sorted\<close> returns them in ascending order. Python
  compares strings lexicographically by code point, which is the order of \<open>string\<close> here.
\<close>

definition collect_dates :: "row list \<Rightarrow> string set \<Rightarrow> string set" where
  "collect_dates rows all_dates =
     fold (\<lambda>row all_dates.
             (case dict_get (Date row) of
                None \<Rightarrow> all_dates
              | Some d \<Rightarrow> insert d all_dates))
       rows all_dates"

definition build_master_calendar :: "universe \<Rightarrow> string list" where
  "build_master_calendar all_assets_data =
     sorted_list_of_set
       (fold (\<lambda>(symbol, rows) all_dates. collect_dates rows all_dates) all_assets_data {})"

subsection \<open>align_assets_to_calendar\<close>

text \<open>
  \<open>date_to_row\<close> is only ever subscripted and tested for membership, so it is a map. The
  copy \<open>dict(row)\<close> is the value of the row.
\<close>

definition date_to_row_of :: "row list \<Rightarrow> (string \<rightharpoonup> row)" where
  "date_to_row_of rows =
     fold (\<lambda>row date_to_row.
             (case dict_get (Date row) of
                None \<Rightarrow> date_to_row
              | Some d \<Rightarrow> date_to_row(d \<mapsto> row)))
       rows Map.empty"

definition placeholder :: "string \<Rightarrow> row" where
  "placeholder date =
     \<lparr>Date = Some (Some date), Open = Some None, High = Some None, Low = Some None,
      Close = Some None, Volume = Some None\<rparr>"

definition align_rows :: "row list \<Rightarrow> string list \<Rightarrow> row list" where
  "align_rows rows master_calendar =
     (let date_to_row = date_to_row_of rows
      in fold (\<lambda>date aligned_list.
                 (case date_to_row date of
                    Some r \<Rightarrow> aligned_list @ [r]
                  | None \<Rightarrow> aligned_list @ [placeholder date]))
           master_calendar [])"

definition align_assets_to_calendar :: "universe \<Rightarrow> string list \<Rightarrow> universe" where
  "align_assets_to_calendar all_assets_data master_calendar =
     fold (\<lambda>(symbol, rows) aligned.
             AList.update symbol (align_rows rows master_calendar) aligned)
       all_assets_data []"

subsection \<open>build_master_dataset\<close>

text \<open>
  A row of the master table is a dictionary from column name to a cell: the date string,
  a closing price, or \<open>None\<close>.
\<close>

datatype pyval = PNone | PStr string | PNum real

fun py_str :: "string option \<Rightarrow> pyval" where
  "py_str None = PNone"
| "py_str (Some s) = PStr s"

fun py_num :: "real option \<Rightarrow> pyval" where
  "py_num None = PNone"
| "py_num (Some x) = PNum x"

type_synonym master_row = "(string \<times> pyval) list"

text \<open>The inner loop \<open>for symbol in symbols\<close> at row index \<open>i\<close>.\<close>

fun bmd_symbols :: "universe \<Rightarrow> nat \<Rightarrow> string list \<Rightarrow> master_row \<Rightarrow> error + master_row" where
  "bmd_symbols aligned_data i [] row = Inr row"
| "bmd_symbols aligned_data i (symbol # symbols) row =
     (case dict_lookup aligned_data symbol of
        Inl e \<Rightarrow> Inl e
      | Inr series \<Rightarrow>
          (case list_index series i of
             Inl e \<Rightarrow> Inl e
           | Inr r \<Rightarrow>
               bmd_symbols aligned_data i symbols
                 (AList.update (symbol @ ''_Close'') (py_num (dict_get (Close r))) row)))"

text \<open>The outer loop \<open>for i in range(n)\<close>.\<close>

fun bmd_rows ::
  "universe \<Rightarrow> string list \<Rightarrow> nat list \<Rightarrow> master_row list \<Rightarrow> error + master_row list" where
  "bmd_rows aligned_data symbols [] master = Inr master"
| "bmd_rows aligned_data symbols (i # is) master =
     (case dict_lookup aligned_data (symbols ! 0) of
        Inl e \<Rightarrow> Inl e
      | Inr first \<Rightarrow>
          (case list_index first i of
             Inl e \<Rightarrow> Inl e
           | Inr r0 \<Rightarrow>
               (case dict_getitem (Date r0) of
                  Inl e \<Rightarrow> Inl e
                | Inr d \<Rightarrow>
                    (case bmd_symbols aligned_data i symbols [(''Date'', py_str d)] of
                       Inl e \<Rightarrow> Inl e
                     | Inr row \<Rightarrow> bmd_rows aligned_data symbols is (master @ [row])))))"

definition build_master_dataset :: "universe \<Rightarrow> error + master_row list" where
  "build_master_dataset aligned_data =
     (let symbols = sort (map fst aligned_data)
      in if symbols = [] then Inr []
         else
           (case dict_lookup aligned_data (symbols ! 0) of
              Inl e \<Rightarrow> Inl e
            | Inr first \<Rightarrow> bmd_rows aligned_data symbols [0..<length first] []))"

subsection \<open>The scenario of the specification\<close>

text \<open>
  Asset A has the dates D1, D3 with closes 10, 12; asset B has the dates D1, D2 with closes
  20 and null. The other fields are null, as in \<open>sample_row\<close>.
\<close>

definition scenario :: universe where
  "scenario =
     [(''B'', [sample_row ''2024-01-01'' (Some 20), sample_row ''2024-01-02'' None]),
      (''A'', [sample_row ''2024-01-01'' (Some 10), sample_row ''2024-01-03'' (Some 12)])]"

section \<open>Properties of build_master_calendar\<close>

lemma collect_dates_set:
  "collect_dates rows A = A \<union> {d. \<exists>r \<in> set rows. dict_get (Date r) = Some d}"
  unfolding collect_dates_def
  by (induction rows arbitrary: A) (auto split: option.splits)

lemma all_dates_set:
  "fold (\<lambda>p all_dates. collect_dates (snd p) all_dates) u A =
     A \<union> (\<Union>p \<in> set u. {d. \<exists>r \<in> set (snd p). dict_get (Date r) = Some d})"
proof (induction u arbitrary: A)
  case Nil
  show ?case by simp
next
  case (Cons p u)
  show ?case
    by (simp only: fold_simps comp_apply Cons.IH) (simp add: collect_dates_set Un_assoc)
qed

lemma finite_row_dates: "finite {d. \<exists>r \<in> set rows. dict_get (Date r) = Some d}"
proof -
  have "{d. \<exists>r \<in> set rows. dict_get (Date r) = Some d} \<subseteq> (\<lambda>r. the (dict_get (Date r))) ` set rows"
    by force
  then show ?thesis by (rule finite_subset) simp
qed

lemma set_build_master_calendar:
  "set (build_master_calendar u) =
     (\<Union>p \<in> set u. {d. \<exists>r \<in> set (snd p). dict_get (Date r) = Some d})"
proof -
  have fin: "finite (\<Union>p \<in> set u. {d. \<exists>r \<in> set (snd p). dict_get (Date r) = Some d})"
    by (rule finite_UN_I) (simp_all add: finite_row_dates)
  show ?thesis
    unfolding build_master_calendar_def case_prod_beta all_dates_set
    by (simp only: Un_empty_left set_sorted_list_of_set [OF fin])
qed

lemma scenario_calendar:
  "build_master_calendar scenario = [''2024-01-01'', ''2024-01-02'', ''2024-01-03'']"
  by code_simp

text \<open>
  Claim C6. The master calendar is strictly increasing, hence without duplicates; every
  non-null Date of every record of every asset is in it; and it holds nothing else.
\<close>

theorem build_master_calendar_spec:
  "sorted_wrt (<) (build_master_calendar u) \<and> distinct (build_master_calendar u) \<and>
   (\<forall>symbol rows r d. (symbol, rows) \<in> set u \<and> r \<in> set rows \<and> dict_get (Date r) = Some d \<longrightarrow>
      d \<in> set (build_master_calendar u)) \<and>
   (\<forall>d \<in> set (build_master_calendar u).
      \<exists>symbol rows r. (symbol, rows) \<in> set u \<and> r \<in> set rows \<and> dict_get (Date r) = Some d)"
proof (intro conjI allI impI ballI)
  show "sorted_wrt (<) (build_master_calendar u)"
    by (simp add: build_master_calendar_def)
  show "distinct (build_master_calendar u)"
    by (simp add: build_master_calendar_def)
  show "d \<in> set (build_master_calendar u)"
    if "(symbol, rows) \<in> set u \<and> r \<in> set rows \<and> dict_get (Date r) = Some d" for symbol rows r d
  proof -
    from that have "d \<in> {d. \<exists>r \<in> set (snd (symbol, rows)). dict_get (Date r) = Some d}"
      by auto
    with that show ?thesis
      unfolding set_build_master_calendar by (intro UN_I [of "(symbol, rows)"]) simp_all
  qed
  show "\<exists>symbol rows r. (symbol, rows) \<in> set u \<and> r \<in> set rows \<and> dict_get (Date r) = Some d"
    if "d \<in> set (build_master_calendar u)" for d
  proof -
    from that obtain p r where "p \<in> set u" "r \<in> set (snd p)" "dict_get (Date r) = Some d"
      unfolding set_build_master_calendar by auto
    then have "(fst p, snd p) \<in> set u \<and> r \<in> set (snd p) \<and> dict_get (Date r) = Some d"
      by simp
    then show ?thesis by (intro exI)
  qed
qed

theorem build_master_calendar_spec_witness:
  "build_master_calendar scenario = [''2024-01-01'', ''2024-01-02'', ''2024-01-03''] \<and>
   (''A'', [sample_row ''2024-01-01'' (Some 10), sample_row ''2024-01-03'' (Some 12)])
      \<in> set scenario \<and>
   dict_get (Date (sample_row ''2024-01-03'' (Some 12))) = Some ''2024-01-03'' \<and>
   ''2024-01-03'' \<in> set (build_master_calendar scenario)"
proof -
  have a: "(''A'', [sample_row ''2024-01-01'' (Some 10), sample_row ''2024-01-03'' (Some 12)])
      \<in> set scenario"
    by (simp add: scenario_def)
  have b: "sample_row ''2024-01-03'' (Some 12)
      \<in> set [sample_row ''2024-01-01'' (Some 10), sample_row ''2024-01-03'' (Some 12)]"
    by simp
  have c: "dict_get (Date (sample_row ''2024-01-03'' (Some 12))) = Some ''2024-01-03''"
    by (simp add: sample_row_def)
  have "''2024-01-03'' \<in> set (build_master_calendar scenario)"
    using build_master_calendar_spec [of scenario, THEN conjunct2, THEN conjunct2,
        THEN conjunct1, rule_format, OF conjI [OF a conjI [OF b c]]] .
  with a c scenario_calendar show ?thesis by (intro conjI)
qed

section \<open>Properties of align_assets_to_calendar\<close>

lemma date_to_row_fold_None:
  "fold (\<lambda>row date_to_row.
           (case dict_get (Date row) of
              None \<Rightarrow> date_to_row
            | Some d \<Rightarrow> date_to_row(d \<mapsto> row))) rows m d = None \<longleftrightarrow>
   m d = None \<and> (\<forall>r \<in> set rows. dict_get (Date r) \<noteq> Some d)"
  by (induction rows arbitrary: m) (auto split: option.splits)

lemma date_to_row_fold_Some:
  "fold (\<lambda>row date_to_row.
           (case dict_get (Date row) of
              None \<Rightarrow> date_to_row
            | Some d \<Rightarrow> date_to_row(d \<mapsto> row))) rows m d = Some r \<Longrightarrow>
   m d = Some r \<or> (r \<in> set rows \<and> dict_get (Date r) = Some d)"
proof (induction rows arbitrary: m)
  case Nil
  then show ?case by simp
next
  case (Cons a rows)
  show ?case
  proof (cases "dict_get (Date a)")
    case None
    with Cons.prems have "fold (\<lambda>row date_to_row.
           (case dict_get (Date row) of
              None \<Rightarrow> date_to_row
            | Some d \<Rightarrow> date_to_row(d \<mapsto> row))) rows m d = Some r"
      by simp
    then have "m d = Some r \<or> (r \<in> set rows \<and> dict_get (Date r) = Some d)"
      by (rule Cons.IH)
    then show ?thesis by auto
  next
    case (Some x)
    with Cons.prems have "fold (\<lambda>row date_to_row.
           (case dict_get (Date row) of
              None \<Rightarrow> date_to_row
            | Some d \<Rightarrow> date_to_row(d \<mapsto> row))) rows (m(x \<mapsto> a)) d = Some r"
      by simp
    then have "(m(x \<mapsto> a)) d = Some r \<or> (r \<in> set rows \<and> dict_get (Date r) = Some d)"
      by (rule Cons.IH)
    with Some show ?thesis by (auto split: if_splits)
  qed
qed

lemma date_to_row_of_None:
  "date_to_row_of rows d = None \<longleftrightarrow> (\<forall>r \<in> set rows. dict_get (Date r) \<noteq> Some d)"
  unfolding date_to_row_of_def by (simp add: date_to_row_fold_None)

lemma date_to_row_of_Some:
  "date_to_row_of rows d = Some r \<Longrightarrow> r \<in> set rows \<and> dict_get (Date r) = Some d"
  unfolding date_to_row_of_def using date_to_row_fold_Some [of rows Map.empty d r] by simp

lemma dict_get_Some_iff: "dict_get e = Some v \<longleftrightarrow> e = Some (Some v)"
  by (cases e) auto

lemma fold_append_map: "fold (\<lambda>x acc. acc @ [g x]) xs acc = acc @ map g xs"
  by (induction xs arbitrary: acc) simp_all

lemma align_rows_map:
  "align_rows rows cal =
     map (\<lambda>date. case date_to_row_of rows date of Some r \<Rightarrow> r | None \<Rightarrow> placeholder date) cal"
proof -
  have "(\<lambda>date aligned_list.
           (case date_to_row_of rows date of
              Some r \<Rightarrow> aligned_list @ [r]
            | None \<Rightarrow> aligned_list @ [placeholder date])) =
        (\<lambda>date aligned_list. aligned_list @
           [case date_to_row_of rows date of Some r \<Rightarrow> r | None \<Rightarrow> placeholder date])"
    by (intro ext) (simp split: option.splits)
  then show ?thesis
    by (simp add: align_rows_def Let_def fold_append_map)
qed

lemma length_align_rows: "length (align_rows rows cal) = length cal"
  by (simp add: align_rows_map)

lemma align_rows_Date:
  "i < length cal \<Longrightarrow> Date (align_rows rows cal ! i) = Some (Some (cal ! i))"
  by (auto simp: align_rows_map placeholder_def dict_get_Some_iff
      dest: date_to_row_of_Some split: option.splits)

lemma align_rows_placeholder:
  "i < length cal \<Longrightarrow> \<forall>r \<in> set rows. dict_get (Date r) \<noteq> Some (cal ! i) \<Longrightarrow>
   align_rows rows cal ! i = placeholder (cal ! i)"
  using date_to_row_of_None [of rows "cal ! i"] by (simp add: align_rows_map)

lemma update_fresh: "k \<notin> fst ` set al \<Longrightarrow> AList.update k v al = al @ [(k, v)]"
  by (induction al) auto

lemma fold_update_distinct:
  "distinct (map fst u) \<Longrightarrow> fst ` set acc \<inter> fst ` set u = {} \<Longrightarrow>
   fold (\<lambda>p aligned. AList.update (fst p) (h (snd p)) aligned) u acc =
     acc @ map (\<lambda>p. (fst p, h (snd p))) u"
proof (induction u arbitrary: acc)
  case Nil
  show ?case by simp
next
  case (Cons p u)
  have fresh: "fst p \<notin> fst ` set acc" using Cons.prems(2) by auto
  have d: "distinct (map fst u)" using Cons.prems(1) by simp
  have disj: "fst ` set (acc @ [(fst p, h (snd p))]) \<inter> fst ` set u = {}"
    using Cons.prems by auto
  show ?case
    by (simp only: fold_simps comp_apply update_fresh [OF fresh] Cons.IH [OF d disj]) simp
qed

lemma align_assets_map:
  "distinct (map fst u) \<Longrightarrow>
   align_assets_to_calendar u cal = map (\<lambda>p. (fst p, align_rows (snd p) cal)) u"
  unfolding align_assets_to_calendar_def case_prod_beta
  using fold_update_distinct [of u "[]" "\<lambda>rows. align_rows rows cal"] by simp

lemma map_of_align_assets:
  assumes "distinct (map fst u)" "(symbol, rows) \<in> set u"
  shows "map_of (align_assets_to_calendar u cal) symbol = Some (align_rows rows cal)"
proof -
  have "distinct (map fst (map (\<lambda>p. (fst p, align_rows (snd p) cal)) u))"
    using assms(1) by (simp add: comp_def)
  moreover have "(symbol, align_rows rows cal) \<in> set (map (\<lambda>p. (fst p, align_rows (snd p) cal)) u)"
    using assms(2) by force
  ultimately show ?thesis
    unfolding align_assets_map [OF assms(1)] by (rule map_of_is_SomeI)
qed

lemma scenario_aligned:
  "align_assets_to_calendar scenario [''2024-01-01'', ''2024-01-02'', ''2024-01-03''] =
     [(''B'', [sample_row ''2024-01-01'' (Some 20), sample_row ''2024-01-02'' None,
               placeholder ''2024-01-03'']),
      (''A'', [sample_row ''2024-01-01'' (Some 10), placeholder ''2024-01-02'',
               sample_row ''2024-01-03'' (Some 12)])]"
  by code_simp



section \<open>Properties of build_master_dataset\<close>

lemma close_key_not_Date: "s @ ''_Close'' \<noteq> ''Date''"
proof
  assume "s @ ''_Close'' = ''Date''"
  then have "length (s @ ''_Close'') = length ''Date''" by (rule arg_cong)
  then show False by simp
qed

lemma close_key_inj: "inj_on (\<lambda>s :: string. s @ ''_Close'') A"
  by (rule inj_onI) simp

lemma dict_lookup_Some: "map_of d k = Some v \<Longrightarrow> dict_lookup d k = Inr v"
  by (simp add: dict_lookup_def)

lemma list_index_nth: "i < length xs \<Longrightarrow> list_index xs i = Inr (xs ! i)"
  by (simp add: list_index_def)

lemma bmd_symbols_result:
  "\<forall>s \<in> set ss. \<exists>rows. map_of aligned s = Some rows \<and> i < length rows \<Longrightarrow>
   distinct ss \<Longrightarrow>
   (\<lambda>s. s @ ''_Close'') ` set ss \<inter> fst ` set row = {} \<Longrightarrow>
   bmd_symbols aligned i ss row =
     Inr (row @ map (\<lambda>s. (s @ ''_Close'',
                           py_num (dict_get (Close (the (map_of aligned s) ! i))))) ss)"
proof (induction ss arbitrary: row)
  case Nil
  show ?case by simp
next
  case (Cons s ss)
  from Cons.prems(1) obtain rows where rows: "map_of aligned s = Some rows" "i < length rows"
    by auto
  let ?v = "py_num (dict_get (Close (rows ! i)))"
  have fresh: "s @ ''_Close'' \<notin> fst ` set row"
    using Cons.prems(3) by auto
  have upd: "AList.update (s @ ''_Close'') ?v row = row @ [(s @ ''_Close'', ?v)]"
    using fresh by (rule update_fresh)
  have 1: "\<forall>s \<in> set ss. \<exists>rows. map_of aligned s = Some rows \<and> i < length rows"
    using Cons.prems(1) by simp
  have 2: "distinct ss" using Cons.prems(2) by simp
  have 3: "(\<lambda>s. s @ ''_Close'') ` set ss \<inter> fst ` set (row @ [(s @ ''_Close'', ?v)]) = {}"
    using Cons.prems(2,3) by auto
  show ?case
    using rows by (simp add: dict_lookup_Some list_index_nth upd Cons.IH [OF 1 2 3])
qed

lemma bmd_rows_result:
  assumes first: "map_of aligned (symbols ! 0) = Some first"
    and dates: "\<forall>i \<in> set is. i < length first \<and> Date (first ! i) = Some (dates ! i)"
    and rows: "\<forall>i \<in> set is. \<forall>s \<in> set symbols.
                 \<exists>rows. map_of aligned s = Some rows \<and> i < length rows"
    and dist: "distinct symbols"
  shows "bmd_rows aligned symbols is master =
     Inr (master @
          map (\<lambda>i. (''Date'', py_str (dates ! i)) #
                    map (\<lambda>s. (s @ ''_Close'',
                               py_num (dict_get (Close (the (map_of aligned s) ! i))))) symbols)
            is)"
  using dates rows
proof (induction "is" arbitrary: master)
  case Nil
  show ?case by simp
next
  case (Cons i "is")
  have i: "i < length first" "Date (first ! i) = Some (dates ! i)"
    using Cons.prems(1) by simp_all
  have sy: "\<forall>s \<in> set symbols. \<exists>rows. map_of aligned s = Some rows \<and> i < length rows"
    using Cons.prems(2) by simp
  have disj: "(\<lambda>s. s @ ''_Close'') ` set symbols \<inter> fst ` set [(''Date'', py_str (dates ! i))] = {}"
    using close_key_not_Date by auto
  have inner: "bmd_symbols aligned i symbols [(''Date'', py_str (dates ! i))] =
     Inr ((''Date'', py_str (dates ! i)) #
          map (\<lambda>s. (s @ ''_Close'',
                     py_num (dict_get (Close (the (map_of aligned s) ! i))))) symbols)"
    using bmd_symbols_result [OF sy dist disj] by simp
  have 1: "\<forall>i \<in> set is. i < length first \<and> Date (first ! i) = Some (dates ! i)"
    using Cons.prems(1) by simp
  have 2: "\<forall>i \<in> set is. \<forall>s \<in> set symbols.
             \<exists>rows. map_of aligned s = Some rows \<and> i < length rows"
    using Cons.prems(2) by simp
  show ?case
    using i by (simp add: dict_lookup_Some [OF first] list_index_nth inner Cons.IH [OF 1 2])
qed

lemma map_eq_nth:
  "map f xs = map g ys \<Longrightarrow> i < length ys \<Longrightarrow> f (xs ! i) = g (ys ! i)"
proof -
  assume e: "map f xs = map g ys" and i: "i < length ys"
  from e have l: "length xs = length ys" by (rule map_eq_imp_length_eq)
  from e have "map f xs ! i = map g ys ! i" by simp
  with i l show ?thesis by simp
qed

lemma build_master_dataset_result:
  assumes d: "distinct (map fst aligned)" and ne: "aligned \<noteq> []"
    and al: "\<forall>s rows. (s, rows) \<in> set aligned \<longrightarrow> map Date rows = map Some dates"
  shows "build_master_dataset aligned =
     Inr (map (\<lambda>i. (''Date'', py_str (dates ! i)) #
                    map (\<lambda>s. (s @ ''_Close'',
                               py_num (dict_get (Close (the (map_of aligned s) ! i)))))
                      (sort (map fst aligned)))
            [0..<length dates])"
proof -
  let ?symbols = "sort (map fst aligned)"
  have len: "length ?symbols = length aligned" by simp
  have sym_ne: "?symbols \<noteq> []"
  proof
    assume "?symbols = []"
    then have "length ?symbols = 0" by (simp only: list.size)
    with len ne show False by simp
  qed
  have dist: "distinct ?symbols" using d by simp
  have lookup: "\<exists>rows. map_of aligned s = Some rows \<and> map Date rows = map Some dates"
    if "s \<in> set ?symbols" for s
  proof -
    from that obtain rows where m: "(s, rows) \<in> set aligned" by auto
    with d have "map_of aligned s = Some rows" by (rule map_of_is_SomeI)
    moreover from al m have "map Date rows = map Some dates" by blast
    ultimately show ?thesis by blast
  qed
  have "?symbols ! 0 \<in> set ?symbols"
    using ne by (intro nth_mem) simp
  from lookup [OF this] obtain first
    where first: "map_of aligned (?symbols ! 0) = Some first"
      and fd: "map Date first = map Some dates"
    by blast
  from fd have fl: "length first = length dates" by (rule map_eq_imp_length_eq)
  have dates: "\<forall>i \<in> set [0..<length dates]. i < length first \<and> Date (first ! i) = Some (dates ! i)"
    using fl map_eq_nth [OF fd] by simp
  have rows: "\<forall>i \<in> set [0..<length dates]. \<forall>s \<in> set ?symbols.
                 \<exists>rows. map_of aligned s = Some rows \<and> i < length rows"
  proof (intro ballI)
    fix i s assume i: "i \<in> set [0..<length dates]" and s: "s \<in> set ?symbols"
    from lookup [OF s] obtain rows
      where r: "map_of aligned s = Some rows" "map Date rows = map Some dates" by blast
    from r(2) have "length rows = length dates" by (rule map_eq_imp_length_eq)
    with i r(1) show "\<exists>rows. map_of aligned s = Some rows \<and> i < length rows" by simp
  qed
  show ?thesis
    unfolding build_master_dataset_def Let_def
    using ne sym_ne bmd_rows_result [OF first dates rows dist, of "[]"]
    by (simp add: dict_lookup_Some [OF first] fl)
qed

lemma scenario_master:
  "build_master_dataset
     (align_assets_to_calendar scenario [''2024-01-01'', ''2024-01-02'', ''2024-01-03'']) =
   Inr [[(''Date'', PStr ''2024-01-01''), (''A_Close'', PNum 10), (''B_Close'', PNum 20)],
        [(''Date'', PStr ''2024-01-02''), (''A_Close'', PNone), (''B_Close'', PNone)],
        [(''Date'', PStr ''2024-01-03''), (''A_Close'', PNum 12), (''B_Close'', PNone)]]"
  by code_simp

lemma scenario_symbols:
  "sort (map fst
     (align_assets_to_calendar scenario [''2024-01-01'', ''2024-01-02'', ''2024-01-03''])) =
   [''A'', ''B'']"
  by code_simp

text \<open>
  Claim C9. On the empty mapping the result is the empty table. On a non-empty mapping (a
  dictionary: its keys are distinct) of series that all have the date column \<open>dates\<close>, the
  call returns a table with one row per date; the \<open>i\<close>-th row has the keys \<open>Date\<close> and then
  \<open><symbol>_Close\<close> for the symbols in lexicographic order, each key once; its \<open>Date\<close> is the
  \<open>i\<close>-th date and its \<open><symbol>_Close\<close> is the Close of that symbol's \<open>i\<close>-th record,
  null when that Close is null.
\<close>

theorem build_master_dataset_spec:
  "build_master_dataset [] = Inr [] \<and>
   (distinct (map fst aligned) \<and> aligned \<noteq> [] \<and>
    (\<forall>s rows. (s, rows) \<in> set aligned \<longrightarrow> map Date rows = map Some dates) \<longrightarrow>
    (\<exists>master.
       build_master_dataset aligned = Inr master \<and> length master = length dates \<and>
       (\<forall>i<length dates.
          map fst (master ! i) = ''Date'' # map (\<lambda>s. s @ ''_Close'') (sort (map fst aligned)) \<and>
          distinct (map fst (master ! i)) \<and>
          map_of (master ! i) ''Date'' = Some (py_str (dates ! i)) \<and>
          (\<forall>s rows. (s, rows) \<in> set aligned \<longrightarrow>
             map_of (master ! i) (s @ ''_Close'') =
               Some (py_num (dict_get (Close (rows ! i))))))))"
proof (intro conjI impI)
  show "build_master_dataset [] = Inr []"
    by (simp add: build_master_dataset_def)
next
  assume h: "distinct (map fst aligned) \<and> aligned \<noteq> [] \<and>
    (\<forall>s rows. (s, rows) \<in> set aligned \<longrightarrow> map Date rows = map Some dates)"
  then have d: "distinct (map fst aligned)" and ne: "aligned \<noteq> []"
    and al: "\<forall>s rows. (s, rows) \<in> set aligned \<longrightarrow> map Date rows = map Some dates"
    by simp_all
  let ?symbols = "sort (map fst aligned)"
  let ?row = "\<lambda>i. (''Date'', py_str (dates ! i)) #
                    map (\<lambda>s. (s @ ''_Close'',
                               py_num (dict_get (Close (the (map_of aligned s) ! i)))))
                      ?symbols"
  let ?master = "map ?row [0..<length dates]"
  have keys: "map fst (?row i) = ''Date'' # map (\<lambda>s. s @ ''_Close'') ?symbols" for i
    by (simp add: comp_def)
  have dk: "distinct (map fst (?row i))" for i
  proof -
    have "distinct (map (\<lambda>s. s @ ''_Close'') ?symbols)"
      using d by (simp add: distinct_map close_key_inj)
    moreover have "''Date'' \<notin> set (map (\<lambda>s. s @ ''_Close'') ?symbols)"
      using close_key_not_Date by (auto simp del: set_sort)
    ultimately show ?thesis unfolding keys by simp
  qed
  have cell: "map_of (?row i) (s @ ''_Close'') = Some (py_num (dict_get (Close (rows ! i))))"
    if m: "(s, rows) \<in> set aligned" for i s rows
  proof -
    from d m have l: "map_of aligned s = Some rows" by (rule map_of_is_SomeI)
    from m have "s \<in> set ?symbols" by force
    then have "(s @ ''_Close'', py_num (dict_get (Close (rows ! i)))) \<in> set (?row i)"
      using l by (auto simp del: set_sort)
    with dk show ?thesis by (rule map_of_is_SomeI)
  qed
  show "\<exists>master.
       build_master_dataset aligned = Inr master \<and> length master = length dates \<and>
       (\<forall>i<length dates.
          map fst (master ! i) = ''Date'' # map (\<lambda>s. s @ ''_Close'') (sort (map fst aligned)) \<and>
          distinct (map fst (master ! i)) \<and>
          map_of (master ! i) ''Date'' = Some (py_str (dates ! i)) \<and>
          (\<forall>s rows. (s, rows) \<in> set aligned \<longrightarrow>
             map_of (master ! i) (s @ ''_Close'') =
               Some (py_num (dict_get (Close (rows ! i))))))"
  proof (rule exI [of _ ?master], intro conjI allI impI)
    show "build_master_dataset aligned = Inr ?master"
      using d ne al by (rule build_master_dataset_result)
    show "length ?master = length dates" by simp
    fix i assume i: "i < length dates"
    then have nth: "?master ! i = ?row i" by simp
    show "map fst (?master ! i) = ''Date'' # map (\<lambda>s. s @ ''_Close'') ?symbols"
      unfolding nth by (rule keys)
    show "distinct (map fst (?master ! i))"
      unfolding nth by (rule dk)
    show "map_of (?master ! i) ''Date'' = Some (py_str (dates ! i))"
      unfolding nth by simp
    show "map_of (?master ! i) (s @ ''_Close'') = Some (py_num (dict_get (Close (rows ! i))))"
      if "(s, rows) \<in> set aligned" for s rows
      unfolding nth using that by (rule cell)
  qed
qed

theorem build_master_dataset_spec_witness:
  "distinct (map fst
     (align_assets_to_calendar scenario [''2024-01-01'', ''2024-01-02'', ''2024-01-03''])) \<and>
   align_assets_to_calendar scenario [''2024-01-01'', ''2024-01-02'', ''2024-01-03''] \<noteq> [] \<and>
   build_master_dataset
     (align_assets_to_calendar scenario [''2024-01-01'', ''2024-01-02'', ''2024-01-03'']) =
   Inr [[(''Date'', PStr ''2024-01-01''), (''A_Close'', PNum 10), (''B_Close'', PNum 20)],
        [(''Date'', PStr ''2024-01-02''), (''A_Close'', PNone), (''B_Close'', PNone)],
        [(''Date'', PStr ''2024-01-03''), (''A_Close'', PNum 12), (''B_Close'', PNone)]] \<and>
   (\<exists>master.
      build_master_dataset
        (align_assets_to_calendar scenario [''2024-01-01'', ''2024-01-02'', ''2024-01-03'']) =
        Inr master \<and>
      length master = 3 \<and>
      map fst (master ! 1) = [''Date'', ''A_Close'', ''B_Close''])"
proof -
  let ?A = "align_assets_to_calendar scenario [''2024-01-01'', ''2024-01-02'', ''2024-01-03'']"
  let ?dates = "[Some ''2024-01-01'', Some ''2024-01-02'', Some ''2024-01-03'']"
  have a: "distinct (map fst ?A)"
    by (simp add: scenario_aligned)
  have ne: "?A \<noteq> []"
    by (simp add: scenario_aligned)
  have h: "\<forall>s rows. (s, rows) \<in> set ?A \<longrightarrow> map Date rows = map Some ?dates"
    by (auto simp: scenario_aligned sample_row_def placeholder_def)
  from build_master_dataset_spec [of ?A ?dates, THEN conjunct2, rule_format,
      OF conjI [OF a conjI [OF ne h]]]
  obtain master where m: "build_master_dataset ?A = Inr master"
    and len: "length master = length ?dates"
    and nth: "\<forall>i<length ?dates.
          map fst (master ! i) = ''Date'' # map (\<lambda>s. s @ ''_Close'') (sort (map fst ?A)) \<and>
          distinct (map fst (master ! i)) \<and>
          map_of (master ! i) ''Date'' = Some (py_str (?dates ! i)) \<and>
          (\<forall>s rows. (s, rows) \<in> set ?A \<longrightarrow>
             map_of (master ! i) (s @ ''_Close'') =
               Some (py_num (dict_get (Close (rows ! i)))))"
    by (elim exE conjE)
  from nth [rule_format, of 1]
  have "map fst (master ! 1) = ''Date'' # map (\<lambda>s. s @ ''_Close'') (sort (map fst ?A))"
    by simp
  then have k: "map fst (master ! 1) = [''Date'', ''A_Close'', ''B_Close'']"
    by (simp add: scenario_symbols)
  from len have l: "length master = 3" by simp
  from m l k
  have "\<exists>master. build_master_dataset ?A = Inr master \<and> length master = 3 \<and>
      map fst (master ! 1) = [''Date'', ''A_Close'', ''B_Close'']"
    by (intro exI [of _ master] conjI)
  with a ne scenario_master show ?thesis by (intro conjI)
qed

section \<open>Absent keys in data_cleaner\<close>

text \<open>
  The detectors and \<open>remove_invalid_rows\<close> read a row only through \<open>row.get(key)\<close>, which
  cannot raise; their models therefore have no error result. \<open>absent_as_null\<close> is the row
  in which every numeric key that was absent is bound to \<open>None\<close>.
\<close>

definition absent_as_null :: "row \<Rightarrow> row" where
  "absent_as_null r =
     r\<lparr>Open := Some (dict_get (Open r)), High := Some (dict_get (High r)),
       Low := Some (dict_get (Low r)), Close := Some (dict_get (Close r)),
       Volume := Some (dict_get (Volume r))\<rparr>"

lemma null_cells_absent_as_null: "null_cells (absent_as_null r) = null_cells r"
  by (simp add: null_cells_def absent_as_null_def)

lemma di_row_absent_as_null:
  "di_row i (absent_as_null r) [] =
     map (\<lambda>a. a\<lparr>anomaly_row := absent_as_null (anomaly_row a)\<rparr>) (di_row i r [])"
  by (simp add: di_row_def absent_as_null_def Let_def split: option.splits)

lemma di_row_index: "a \<in> set (di_row i r []) \<Longrightarrow> anomaly_index a = i"
  by (auto simp: di_row_def Let_def split: option.splits if_splits)

lemma dict_get_absent: "e = None \<Longrightarrow> dict_get e = None"
  by simp

lemma null_cells_absent:
  "Open r = None \<or> High r = None \<or> Low r = None \<or> Close r = None \<or> Volume r = None \<Longrightarrow>
   0 < null_cells r"
  by (auto simp: null_cells_def)

lemma detect_inconsistencies_concat:
  "detect_inconsistencies xs = concat (map (\<lambda>i. di_row i (xs ! i) []) [0..<length xs])"
  by (simp add: detect_inconsistencies_def di_fold_concat)

text \<open>
  Claim C10. Binding the absent numeric keys of every row to null changes neither the result
  of \<open>detect_missing_values\<close> nor, up to the same change in the row snapshots and rows
  returned, the results of \<open>detect_inconsistencies\<close> and \<open>remove_invalid_rows\<close>. A
  position with an absent Open, High, Low, Close or Volume key is reported as missing (a
  row with all five absent counts five cells); a position whose Low or High key is absent
  yields no anomaly; a record whose Close key is absent is dropped.
\<close>

theorem absent_key_as_null:
  "detect_missing_values (map absent_as_null xs) = detect_missing_values xs \<and>
   detect_inconsistencies (map absent_as_null xs) =
     map (\<lambda>a. a\<lparr>anomaly_row := absent_as_null (anomaly_row a)\<rparr>) (detect_inconsistencies xs) \<and>
   remove_invalid_rows (map absent_as_null xs) = map absent_as_null (remove_invalid_rows xs) \<and>
   (i < length xs \<and>
    (Open (xs ! i) = None \<or> High (xs ! i) = None \<or> Low (xs ! i) = None \<or>
     Close (xs ! i) = None \<or> Volume (xs ! i) = None) \<longrightarrow>
      i \<in> set (snd (detect_missing_values xs))) \<and>
   detect_missing_values
     [\<lparr>Date = d, Open = None, High = None, Low = None, Close = None, Volume = None\<rparr>] =
     (5, [0]) \<and>
   (i < length xs \<and> (Low (xs ! i) = None \<or> High (xs ! i) = None) \<longrightarrow>
      i \<notin> anomaly_index ` set (detect_inconsistencies xs)) \<and>
   (Close r = None \<longrightarrow> r \<notin> set (remove_invalid_rows xs))"
proof (intro conjI impI)
  have "filter (\<lambda>i. 0 < null_cells (map absent_as_null xs ! i)) [0..<length xs] =
        filter (\<lambda>i. 0 < null_cells (xs ! i)) [0..<length xs]"
    by (rule filter_cong) (simp_all add: null_cells_absent_as_null)
  then show "detect_missing_values (map absent_as_null xs) = detect_missing_values xs"
    by (simp add: detect_missing_values_eq comp_def null_cells_absent_as_null)
next
  have e: "map (\<lambda>i. di_row i (map absent_as_null xs ! i) []) [0..<length xs] =
        map (\<lambda>i. map (\<lambda>a. a\<lparr>anomaly_row := absent_as_null (anomaly_row a)\<rparr>)
                      (di_row i (xs ! i) [])) [0..<length xs]"
    by (rule map_cong) (simp_all add: di_row_absent_as_null)
  have "detect_inconsistencies (map absent_as_null xs) =
        concat (map (\<lambda>i. di_row i (map absent_as_null xs ! i) []) [0..<length xs])"
    by (simp add: detect_inconsistencies_concat)
  also have "\<dots> = concat (map (\<lambda>i. map (\<lambda>a. a\<lparr>anomaly_row := absent_as_null (anomaly_row a)\<rparr>)
                      (di_row i (xs ! i) [])) [0..<length xs])"
    by (simp only: e)
  also have "\<dots> = map (\<lambda>a. a\<lparr>anomaly_row := absent_as_null (anomaly_row a)\<rparr>)
                      (concat (map (\<lambda>i. di_row i (xs ! i) []) [0..<length xs]))"
    by (simp add: map_concat comp_def)
  also have "\<dots> = map (\<lambda>a. a\<lparr>anomaly_row := absent_as_null (anomaly_row a)\<rparr>)
                      (detect_inconsistencies xs)"
    by (simp only: detect_inconsistencies_concat)
  finally show "detect_inconsistencies (map absent_as_null xs) =
     map (\<lambda>a. a\<lparr>anomaly_row := absent_as_null (anomaly_row a)\<rparr>) (detect_inconsistencies xs)" .
next
  show "remove_invalid_rows (map absent_as_null xs) = map absent_as_null (remove_invalid_rows xs)"
    by (simp add: remove_invalid_rows_filter filter_map comp_def absent_as_null_def)
next
  assume "i < length xs \<and>
    (Open (xs ! i) = None \<or> High (xs ! i) = None \<or> Low (xs ! i) = None \<or>
     Close (xs ! i) = None \<or> Volume (xs ! i) = None)"
  then have "i < length xs" "0 < null_cells (xs ! i)"
    using null_cells_absent [of "xs ! i"] by simp_all
  then show "i \<in> set (snd (detect_missing_values xs))"
    by (simp add: detect_missing_values_eq)
next
  show "detect_missing_values
     [\<lparr>Date = d, Open = None, High = None, Low = None, Close = None, Volume = None\<rparr>] =
     (5, [0])"
    by (simp add: detect_missing_values_eq null_cells_def)
next
  assume h: "i < length xs \<and> (Low (xs ! i) = None \<or> High (xs ! i) = None)"
  then have "dict_get (Low (xs ! i)) = None \<or> dict_get (High (xs ! i)) = None"
    by auto
  then have empty: "di_row i (xs ! i) [] = []" by (rule di_row_skip)
  show "i \<notin> anomaly_index ` set (detect_inconsistencies xs)"
  proof
    assume "i \<in> anomaly_index ` set (detect_inconsistencies xs)"
    then obtain a j where a: "a \<in> set (di_row j (xs ! j) [])" "anomaly_index a = i"
      by (auto simp: detect_inconsistencies_concat)
    from a(1) have "anomaly_index a = j" by (rule di_row_index)
    with a empty show False by simp
  qed
next
  assume "Close r = None"
  then show "r \<notin> set (remove_invalid_rows xs)"
    by (simp add: remove_invalid_rows_filter)
qed

theorem absent_key_as_null_witness:
  "0 < length [\<lparr>Date = Some (Some ''2024-01-01''), Open = None, High = None, Low = None,
                 Close = None, Volume = None\<rparr>] \<and>
   Low \<lparr>Date = Some (Some ''2024-01-01''), Open = None, High = None, Low = None,
        Close = None, Volume = None\<rparr> = None \<and>
   0 \<in> set (snd (detect_missing_values
       [\<lparr>Date = Some (Some ''2024-01-01''), Open = None, High = None, Low = None,
         Close = None, Volume = None\<rparr>])) \<and>
   0 \<notin> anomaly_index ` set (detect_inconsistencies
       [\<lparr>Date = Some (Some ''2024-01-01''), Open = None, High = None, Low = None,
         Close = None, Volume = None\<rparr>]) \<and>
   \<lparr>Date = Some (Some ''2024-01-01''), Open = None, High = None, Low = None,
     Close = None, Volume = None\<rparr> \<notin> set (remove_invalid_rows
       [\<lparr>Date = Some (Some ''2024-01-01''), Open = None, High = None, Low = None,
         Close = None, Volume = None\<rparr>])"
  using absent_key_as_null
    [of "[\<lparr>Date = Some (Some ''2024-01-01''), Open = None, High = None, Low = None,
            Close = None, Volume = None\<rparr>]" 0 _
        "\<lparr>Date = Some (Some ''2024-01-01''), Open = None, High = None, Low = None,
            Close = None, Volume = None\<rparr>"]
  by simp

section \<open>etl_pipeline.run_etl\<close>

text \<open>
  The transformation part of \<open>run_etl\<close>, from the dictionary that
  \<open>fetch_multiple_assets\<close> returned to the master dataset: the filter that keeps the
  assets with a non-empty downloaded series, the cleaning loop with its four report
  dictionaries, and the three calls of \<open>data_unifier\<close>. The download before it and the
  export and the printed report after it are not modelled.

  \<open>clean_with_forward_fill\<close> changes \<open>asset_data\<close> in place, so the loop goes on with the
  filled series: \<open>remove_invalid_rows\<close> and \<open>len(asset_data)\<close> read it after the fill.
  The series come from \<open>fetch_multiple_assets\<close>, where \<open>_parse_chart_json\<close> builds one
  dictionary per row, so a series of \<open>n\<close> rows is the addresses \<open>0..n-1\<close> of a store of its
  own (\<open>store_of\<close>), and the filled series is read from the store after the call
  (\<open>rows_after\<close>).
\<close>

record etl_reports =
  missing_per_asset :: "(string \<times> (nat \<times> nat list)) list"
  inconsistencies_per_asset :: "(string \<times> anomaly list) list"
  corrections_applied :: "(string \<times> int) list"
  cleaned_data :: universe

record etl_result =
  reports :: etl_reports
  master_calendar :: "string list"
  aligned_data :: universe
  master_dataset :: "master_row list"

fun etl_clean_loop :: "universe \<Rightarrow> etl_reports \<Rightarrow> error + etl_reports" where
  "etl_clean_loop [] st = Inr st"
| "etl_clean_loop ((symbol, asset_data) # rest) st =
     (let missing = detect_missing_values asset_data;
          inconsistencies = detect_inconsistencies asset_data
      in case rows_after
                (clean_with_forward_fill [0..<length asset_data] (store_of asset_data)) of
           Inl e \<Rightarrow> Inl e
         | Inr filled \<Rightarrow>
             (let cleaned = remove_invalid_rows filled
              in etl_clean_loop rest
                   \<lparr>missing_per_asset = AList.update symbol missing (missing_per_asset st),
                    inconsistencies_per_asset =
                      AList.update symbol inconsistencies (inconsistencies_per_asset st),
                    corrections_applied =
                      AList.update symbol (int (length filled) - int (length cleaned))
                        (corrections_applied st),
                    cleaned_data = AList.update symbol cleaned (cleaned_data st)\<rparr>))"

definition run_etl :: "universe \<Rightarrow> error + etl_result" where
  "run_etl fetched =
     (let all_assets_data = filter (\<lambda>(k, v). v \<noteq> []) fetched
      in case etl_clean_loop all_assets_data
                \<lparr>missing_per_asset = [], inconsistencies_per_asset = [],
                 corrections_applied = [], cleaned_data = []\<rparr> of
           Inl e \<Rightarrow> Inl e
         | Inr st \<Rightarrow>
             (let calendar = build_master_calendar (cleaned_data st);
                  aligned = align_assets_to_calendar (cleaned_data st) calendar
              in case build_master_dataset aligned of
                   Inl e \<Rightarrow> Inl e
                 | Inr master \<Rightarrow>
                     Inr \<lparr>reports = st, master_calendar = calendar, aligned_data = aligned,
                          master_dataset = master\<rparr>))"

text \<open>
  The series that the loop stores for an asset: the rows with a non-null Close of the
  forward-filled series.
\<close>

definition cleaned_series :: "row list \<Rightarrow> row list" where
  "cleaned_series asset_data =
     (case rows_after
             (clean_with_forward_fill [0..<length asset_data] (store_of asset_data)) of
        Inl e \<Rightarrow> []
      | Inr filled \<Rightarrow> remove_invalid_rows filled)"

text \<open>A universe in which one asset has no usable record: B has a single row, with a null Close.\<close>

definition one_empty :: universe where
  "one_empty =
     [(''B'', [sample_row ''2024-01-01'' None]),
      (''A'', [sample_row ''2024-01-01'' (Some 10)])]"

section \<open>Properties of run_etl\<close>

lemma master_row_keys:
  "map fst ((''Date'', v) # map (\<lambda>s. (s @ ''_Close'', g s)) symbols) =
     ''Date'' # map (\<lambda>s. s @ ''_Close'') symbols"
  by (simp add: comp_def)

lemma master_row_distinct:
  "distinct symbols \<Longrightarrow>
   distinct (map fst ((''Date'', v) # map (\<lambda>s. (s @ ''_Close'', g s)) symbols))"
  unfolding master_row_keys
  using close_key_not_Date by (auto simp: distinct_map close_key_inj)

lemma master_row_cell:
  "distinct symbols \<Longrightarrow> s \<in> set symbols \<Longrightarrow>
   map_of ((''Date'', v) # map (\<lambda>s. (s @ ''_Close'', g s)) symbols) (s @ ''_Close'') =
     Some (g s)"
proof -
  assume d: "distinct symbols" and s: "s \<in> set symbols"
  from s have "(s @ ''_Close'', g s) \<in> set ((''Date'', v) # map (\<lambda>s. (s @ ''_Close'', g s)) symbols)"
    by auto
  with master_row_distinct [OF d] show ?thesis by (rule map_of_is_SomeI)
qed

lemma align_rows_dates: "map Date (align_rows rows cal) = map Some (map Some cal)"
  by (rule nth_equalityI) (simp_all add: length_align_rows align_rows_Date)

lemma align_rows_empty: "i < length cal \<Longrightarrow> align_rows [] cal ! i = placeholder (cal ! i)"
  by (rule align_rows_placeholder) simp_all

lemma cleaned_series_eq:
  "rows_after (clean_with_forward_fill [0..<length asset_data] (store_of asset_data)) =
     Inr filled \<Longrightarrow>
   remove_invalid_rows filled = cleaned_series asset_data"
  by (simp add: cleaned_series_def)

lemma etl_clean_loop_cleaned:
  "distinct (map fst u) \<Longrightarrow> fst ` set (cleaned_data st) \<inter> fst ` set u = {} \<Longrightarrow>
   \<exists>st'. etl_clean_loop u st = Inr st' \<and>
         cleaned_data st' = cleaned_data st @ map (\<lambda>p. (fst p, cleaned_series (snd p))) u"
proof (induction u arbitrary: st)
  case Nil
  show ?case by simp
next
  case (Cons p u)
  obtain symbol asset_data where p: "p = (symbol, asset_data)" by (cases p)
  obtain filled
    where f: "rows_after
                (clean_with_forward_fill [0..<length asset_data] (store_of asset_data)) =
              Inr filled"
    by (simp add: rows_after_fresh)
  let ?st = "\<lparr>missing_per_asset =
                 AList.update symbol (detect_missing_values asset_data) (missing_per_asset st),
               inconsistencies_per_asset =
                 AList.update symbol (detect_inconsistencies asset_data)
                   (inconsistencies_per_asset st),
               corrections_applied =
                 AList.update symbol
                   (int (length filled) - int (length (remove_invalid_rows filled)))
                   (corrections_applied st),
               cleaned_data =
                 AList.update symbol (remove_invalid_rows filled) (cleaned_data st)\<rparr>"
  have fresh: "symbol \<notin> fst ` set (cleaned_data st)"
    using Cons.prems(2) p by auto
  have cd: "cleaned_data ?st = cleaned_data st @ [(symbol, cleaned_series asset_data)]"
    using update_fresh [OF fresh] cleaned_series_eq [OF f] by simp
  have d: "distinct (map fst u)" using Cons.prems(1) by simp
  have disj: "fst ` set (cleaned_data ?st) \<inter> fst ` set u = {}"
    unfolding cd using Cons.prems p by auto
  from Cons.IH [OF d disj] obtain st'
    where st': "etl_clean_loop u ?st = Inr st'"
      "cleaned_data st' = cleaned_data ?st @ map (\<lambda>p. (fst p, cleaned_series (snd p))) u"
    by blast
  have "etl_clean_loop (p # u) st = Inr st'"
    unfolding p using f st'(1) by (simp add: Let_def)
  moreover have "cleaned_data st' =
      cleaned_data st @ map (\<lambda>p. (fst p, cleaned_series (snd p))) (p # u)"
    unfolding st'(2) cd p by simp
  ultimately show ?case by blast
qed

lemma build_master_calendar_eq:
  "build_master_calendar u =
     sorted_list_of_set (\<Union>p \<in> set u. {d. \<exists>r \<in> set (snd p). dict_get (Date r) = Some d})"
  unfolding build_master_calendar_def case_prod_beta all_dates_set by simp

lemma build_master_calendar_nonempty_only:
  "build_master_calendar (filter (\<lambda>(k, v). v \<noteq> []) u) = build_master_calendar u"
proof -
  have "(\<Union>p \<in> set (filter (\<lambda>(k, v). v \<noteq> []) u).
           {d. \<exists>r \<in> set (snd p). dict_get (Date r) = Some d}) =
        (\<Union>p \<in> set u. {d. \<exists>r \<in> set (snd p). dict_get (Date r) = Some d})"
    by (auto simp: case_prod_beta)
  then show ?thesis by (simp only: build_master_calendar_eq)
qed

lemma master_of_aligned:
  assumes d: "distinct (map fst cd)"
  shows "\<exists>master.
     build_master_dataset (align_assets_to_calendar cd cal) = Inr master \<and>
     length master = (if cd = [] then 0 else length cal) \<and>
     (\<forall>row \<in> set master.
        map fst row = ''Date'' # map (\<lambda>s. s @ ''_Close'') (sort (map fst cd)) \<and>
        distinct (map fst row) \<and>
        (\<forall>symbol. (symbol, []) \<in> set cd \<longrightarrow>
           map_of row (symbol @ ''_Close'') = Some PNone))"
proof (cases "cd = []")
  case True
  then show ?thesis
    by (simp add: align_assets_to_calendar_def build_master_dataset_def)
next
  case False
  let ?al = "align_assets_to_calendar cd cal"
  have al: "?al = map (\<lambda>p. (fst p, align_rows (snd p) cal)) cd"
    using d by (rule align_assets_map)
  have keys: "map fst ?al = map fst cd"
    unfolding al by (simp add: comp_def)
  have dal: "distinct (map fst ?al)" unfolding keys by (rule d)
  have ne: "?al \<noteq> []" unfolding al using False by simp
  have dates: "\<forall>s rows. (s, rows) \<in> set ?al \<longrightarrow> map Date rows = map Some (map Some cal)"
    unfolding al by (auto simp: align_rows_dates)
  let ?symbols = "sort (map fst cd)"
  let ?g = "\<lambda>i s. py_num (dict_get (Close (the (map_of ?al s) ! i)))"
  let ?row = "\<lambda>i. (''Date'', py_str (map Some cal ! i)) # map (\<lambda>s. (s @ ''_Close'', ?g i s)) ?symbols"
  let ?master = "map ?row [0..<length cal]"
  have bmd: "build_master_dataset ?al = Inr ?master"
    using build_master_dataset_result [OF dal ne dates] unfolding keys by simp
  have ds: "distinct ?symbols" using d by simp
  have rows: "map fst row = ''Date'' # map (\<lambda>s. s @ ''_Close'') ?symbols \<and>
        distinct (map fst row) \<and>
        (\<forall>symbol. (symbol, []) \<in> set cd \<longrightarrow> map_of row (symbol @ ''_Close'') = Some PNone)"
    if "row \<in> set ?master" for row
  proof -
    from that obtain i where i: "i < length cal" and row: "row = ?row i" by auto
    have k: "map fst row = ''Date'' # map (\<lambda>s. s @ ''_Close'') ?symbols"
      unfolding row by (rule master_row_keys)
    have dr: "distinct (map fst row)"
      unfolding row using ds by (rule master_row_distinct)
    have cell: "map_of row (symbol @ ''_Close'') = Some PNone"
      if m: "(symbol, []) \<in> set cd" for symbol
    proof -
      from m have s: "symbol \<in> set ?symbols" by force
      have "map_of ?al symbol = Some (align_rows [] cal)"
        using d m by (rule map_of_align_assets)
      then have "the (map_of ?al symbol) ! i = placeholder (cal ! i)"
        using i by (simp add: align_rows_empty)
      then have "?g i symbol = PNone"
        by (simp add: placeholder_def)
      with master_row_cell [OF ds s, of "py_str (map Some cal ! i)" "?g i"]
      show ?thesis unfolding row by simp
    qed
    from k dr cell show ?thesis by blast
  qed
  have len: "length ?master = (if cd = [] then 0 else length cal)"
    using False by simp
  from bmd len rows show ?thesis by blast
qed

lemma one_empty_cleaned:
  "map (\<lambda>p. (fst p, cleaned_series (snd p))) (filter (\<lambda>(k, v). v \<noteq> []) one_empty) =
     [(''B'', []), (''A'', [sample_row ''2024-01-01'' (Some 10)])]"
  by code_simp

lemma one_empty_calendar:
  "build_master_calendar
     (filter (\<lambda>(k, v). v \<noteq> [])
        [(''B'', []), (''A'', [sample_row ''2024-01-01'' (Some 10)])]) = [''2024-01-01'']"
  by code_simp

text \<open>
  Claim C1, as the code has it. For a fetched universe (a dictionary: its keys are distinct)
  the pipeline returns a result. The cleaned universe keeps every symbol whose downloaded
  series is non-empty, bound to its cleaned series, which may be empty. The master calendar
  is the calendar of the symbols with a non-empty cleaned series alone: an empty cleaned
  series contributes no date. The master table has one row per calendar date, and every row
  has the keys \<open>Date\<close> and \<open><symbol>_Close\<close> for every symbol of the cleaned universe, in
  lexicographic order and each once; the column of a symbol whose cleaned series is empty
  is there too, and holds null in every row.
\<close>

theorem run_etl_empty_series:
  "distinct (map fst fetched) \<longrightarrow>
   (\<exists>res. run_etl fetched = Inr res \<and>
      cleaned_data (reports res) =
        map (\<lambda>p. (fst p, cleaned_series (snd p))) (filter (\<lambda>(k, v). v \<noteq> []) fetched) \<and>
      master_calendar res =
        build_master_calendar (filter (\<lambda>(k, v). v \<noteq> []) (cleaned_data (reports res))) \<and>
      length (master_dataset res) = length (master_calendar res) \<and>
      (\<forall>row \<in> set (master_dataset res).
         map fst row =
           ''Date'' # map (\<lambda>s. s @ ''_Close'')
                        (sort (map fst (filter (\<lambda>(k, v). v \<noteq> []) fetched))) \<and>
         distinct (map fst row) \<and>
         (\<forall>symbol. (symbol, []) \<in> set (cleaned_data (reports res)) \<longrightarrow>
            map_of row (symbol @ ''_Close'') = Some PNone)))"
proof
  assume d: "distinct (map fst fetched)"
  let ?u = "filter (\<lambda>(k, v). v \<noteq> []) fetched"
  let ?init = "\<lparr>missing_per_asset = [], inconsistencies_per_asset = [],
                 corrections_applied = [], cleaned_data = []\<rparr>"
  have du: "distinct (map fst ?u)" using d by (rule distinct_map_filter)
  from etl_clean_loop_cleaned [OF du, of ?init] obtain st
    where loop: "etl_clean_loop ?u ?init = Inr st"
      and cd: "cleaned_data st = map (\<lambda>p. (fst p, cleaned_series (snd p))) ?u"
    by auto
  have kcd: "map fst (cleaned_data st) = map fst ?u"
    unfolding cd by (simp add: comp_def)
  have dcd: "distinct (map fst (cleaned_data st))"
    unfolding kcd by (rule du)
  let ?cal = "build_master_calendar (cleaned_data st)"
  let ?al = "align_assets_to_calendar (cleaned_data st) ?cal"
  from master_of_aligned [OF dcd, of ?cal] obtain master
    where bmd: "build_master_dataset ?al = Inr master"
      and len: "length master = (if cleaned_data st = [] then 0 else length ?cal)"
      and rows: "\<forall>row \<in> set master.
        map fst row = ''Date'' # map (\<lambda>s. s @ ''_Close'') (sort (map fst (cleaned_data st))) \<and>
        distinct (map fst row) \<and>
        (\<forall>symbol. (symbol, []) \<in> set (cleaned_data st) \<longrightarrow>
           map_of row (symbol @ ''_Close'') = Some PNone)"
    by blast
  have rows': "\<forall>row \<in> set master.
        map fst row = ''Date'' # map (\<lambda>s. s @ ''_Close'') (sort (map fst ?u)) \<and>
        distinct (map fst row) \<and>
        (\<forall>symbol. (symbol, []) \<in> set (cleaned_data st) \<longrightarrow>
           map_of row (symbol @ ''_Close'') = Some PNone)"
    using rows unfolding kcd .
  let ?res = "\<lparr>reports = st, master_calendar = ?cal, aligned_data = ?al,
               master_dataset = master\<rparr>"
  have run: "run_etl fetched = Inr ?res"
    unfolding run_etl_def Let_def using loop bmd by simp
  have cal: "?cal = build_master_calendar (filter (\<lambda>(k, v). v \<noteq> []) (cleaned_data st))"
    by (rule build_master_calendar_nonempty_only [symmetric])
  have len': "length master = length ?cal"
  proof (cases "cleaned_data st = []")
    case True
    then have "?cal = []" by (simp add: build_master_calendar_eq)
    with True len show ?thesis by simp
  next
    case False
    with len show ?thesis by simp
  qed
  show "\<exists>res. run_etl fetched = Inr res \<and>
      cleaned_data (reports res) =
        map (\<lambda>p. (fst p, cleaned_series (snd p))) (filter (\<lambda>(k, v). v \<noteq> []) fetched) \<and>
      master_calendar res =
        build_master_calendar (filter (\<lambda>(k, v). v \<noteq> []) (cleaned_data (reports res))) \<and>
      length (master_dataset res) = length (master_calendar res) \<and>
      (\<forall>row \<in> set (master_dataset res).
         map fst row =
           ''Date'' # map (\<lambda>s. s @ ''_Close'')
                        (sort (map fst (filter (\<lambda>(k, v). v \<noteq> []) fetched))) \<and>
         distinct (map fst row) \<and>
         (\<forall>symbol. (symbol, []) \<in> set (cleaned_data (reports res)) \<longrightarrow>
            map_of row (symbol @ ''_Close'') = Some PNone))"
  proof (rule exI [of _ ?res], intro conjI)
    show "run_etl fetched = Inr ?res" by (rule run)
    show "cleaned_data (reports ?res) = map (\<lambda>p. (fst p, cleaned_series (snd p))) ?u"
      using cd by simp
    show "master_calendar ?res =
        build_master_calendar (filter (\<lambda>(k, v). v \<noteq> []) (cleaned_data (reports ?res)))"
      using cal by simp
    show "length (master_dataset ?res) = length (master_calendar ?res)"
      using len' by simp
    show "\<forall>row \<in> set (master_dataset ?res).
         map fst row = ''Date'' # map (\<lambda>s. s @ ''_Close'') (sort (map fst ?u)) \<and>
         distinct (map fst row) \<and>
         (\<forall>symbol. (symbol, []) \<in> set (cleaned_data (reports ?res)) \<longrightarrow>
            map_of row (symbol @ ''_Close'') = Some PNone)"
      unfolding etl_result.select_convs by (rule rows')
  qed
qed

theorem run_etl_empty_series_witness:
  "distinct (map fst one_empty) \<and>
   (\<exists>res. run_etl one_empty = Inr res \<and>
      (''B'', []) \<in> set (cleaned_data (reports res)) \<and>
      master_calendar res = [''2024-01-01''] \<and>
      length (master_dataset res) = 1 \<and>
      map_of (master_dataset res ! 0) ''B_Close'' = Some PNone)"
proof -
  have d: "distinct (map fst one_empty)"
    by (simp add: one_empty_def)
  from run_etl_empty_series [of one_empty, rule_format, OF d] obtain res
    where run: "run_etl one_empty = Inr res"
      and cd: "cleaned_data (reports res) =
        map (\<lambda>p. (fst p, cleaned_series (snd p))) (filter (\<lambda>(k, v). v \<noteq> []) one_empty)"
      and cal: "master_calendar res =
        build_master_calendar (filter (\<lambda>(k, v). v \<noteq> []) (cleaned_data (reports res)))"
      and len: "length (master_dataset res) = length (master_calendar res)"
      and rows: "\<forall>row \<in> set (master_dataset res).
         map fst row =
           ''Date'' # map (\<lambda>s. s @ ''_Close'')
                        (sort (map fst (filter (\<lambda>(k, v). v \<noteq> []) one_empty))) \<and>
         distinct (map fst row) \<and>
         (\<forall>symbol. (symbol, []) \<in> set (cleaned_data (reports res)) \<longrightarrow>
            map_of row (symbol @ ''_Close'') = Some PNone)"
    by (elim exE conjE)
  have cd': "cleaned_data (reports res) =
      [(''B'', []), (''A'', [sample_row ''2024-01-01'' (Some 10)])]"
    using cd by (simp only: one_empty_cleaned)
  have mem: "(''B'', []) \<in> set (cleaned_data (reports res))"
    unfolding cd' by simp
  have cal': "master_calendar res = [''2024-01-01'']"
    using cal unfolding cd' by (simp only: one_empty_calendar)
  have len': "length (master_dataset res) = 1"
    using len unfolding cal' by simp
  then have "master_dataset res ! 0 \<in> set (master_dataset res)"
    by (intro nth_mem) simp
  with rows mem have "map_of (master_dataset res ! 0) (''B'' @ ''_Close'') = Some PNone"
    by blast
  then have cell: "map_of (master_dataset res ! 0) ''B_Close'' = Some PNone"
    by simp
  from run mem cal' len' cell
  have "\<exists>res. run_etl one_empty = Inr res \<and>
      (''B'', []) \<in> set (cleaned_data (reports res)) \<and>
      master_calendar res = [''2024-01-01''] \<and>
      length (master_dataset res) = 1 \<and>
      map_of (master_dataset res ! 0) ''B_Close'' = Some PNone"
    by (intro exI [of _ res] conjI)
  with d show ?thesis by (intro conjI)
qed

text \<open>
  The run on \<open>one_empty\<close>: the cleaned series of B is empty, B adds no date to the
  calendar, and the one row of the master table has the column \<open>B_Close\<close>, holding null.
\<close>

theorem run_etl_one_empty_counterexample:
  "run_etl one_empty =
     Inr \<lparr>reports =
            \<lparr>missing_per_asset = [(''B'', (5, [0])), (''A'', (4, [0]))],
             inconsistencies_per_asset = [(''B'', []), (''A'', [])],
             corrections_applied = [(''B'', 1), (''A'', 0)],
             cleaned_data = [(''B'', []), (''A'', [sample_row ''2024-01-01'' (Some 10)])]\<rparr>,
          master_calendar = [''2024-01-01''],
          aligned_data =
            [(''B'', [placeholder ''2024-01-01'']),
             (''A'', [sample_row ''2024-01-01'' (Some 10)])],
          master_dataset =
            [[(''Date'', PStr ''2024-01-01''), (''A_Close'', PNum 10), (''B_Close'', PNone)]]\<rparr>"
  by code_simp

end
